theory Spec2Isabelle
  imports Main "HOL-Library.Word" "HOL-Library.Monad_Syntax"
begin

unbundle bit_operations_syntax

section \<open>Bytes and operation codes\<close>

text \<open>
  A \<^verbatim>\<open>BookieOperation\<close> is kept as the 8-bit value that the header carries for it
  (\<^verbatim>\<open>(int8_t) opCode\<close> in \<^verbatim>\<open>toInt\<close>, \<^verbatim>\<open>(value >> 16) & 0xFF\<close> in \<^verbatim>\<open>fromInt\<close>).
\<close>

type_synonym byte = "8 word"
type_synonym BookieOperation = "8 word"

section \<open>IOBuf chains and cursors\<close>

text \<open>
  An \<^verbatim>\<open>IOBuf\<close> is the head of a chain of buffers: its own data, then the data of the
  buffers chained behind it. \<^verbatim>\<open>IOBuf::length()\<close> is the data length of the head buffer
  alone; \<^verbatim>\<open>computeChainDataLength()\<close> is that of the chain. An \<^verbatim>\<open>IOBufPtr\<close> is a
  \<^verbatim>\<open>unique_ptr\<close>, \<open>None\<close> when null.
\<close>

datatype IOBuf = IOBuf (bufData: "byte list") (chained: "byte list list")

type_synonym IOBufPtr = "IOBuf option"

definition IOBuf_length :: "IOBuf \<Rightarrow> nat" where
  "IOBuf_length b = length (bufData b)"

definition chainBytes :: "IOBuf \<Rightarrow> byte list" where
  "chainBytes b = bufData b @ concat (chained b)"

definition computeChainDataLength :: "IOBuf \<Rightarrow> nat" where
  "computeChainDataLength b = length (chainBytes b)"

text \<open>Big-endian bytes of a word, and the word of big-endian bytes.\<close>

definition beBytes :: "nat \<Rightarrow> 'a::len word \<Rightarrow> byte list" where
  "beBytes n w = map (\<lambda>i. ucast (drop_bit (8 * i) w)) (rev [0..<n])"

definition beWord :: "byte list \<Rightarrow> 'a::len word" where
  "beWord bs = foldl (\<lambda>w b. push_bit 8 w OR ucast b) 0 bs"

text \<open>
  \<^verbatim>\<open>io::Cursor\<close>, reading: the bytes of the chain from the cursor's position to the end.
  \<^verbatim>\<open>totalLength()\<close> counts them. \<^verbatim>\<open>readBE\<close>, \<^verbatim>\<open>skip\<close> and \<^verbatim>\<open>clone\<close> throw
  \<^verbatim>\<open>std::out_of_range\<close> when fewer bytes are left than they consume: \<open>None\<close>.
  \<^verbatim>\<open>clone\<close> yields a non-null buffer that shares the bytes; how it is chained is not
  kept, it is one buffer here.
\<close>

type_synonym Cursor = "byte list"

definition Cursor :: "IOBuf \<Rightarrow> Cursor" where
  "Cursor b = chainBytes b"

definition totalLength :: "Cursor \<Rightarrow> nat" where
  "totalLength r = length r"

definition readBE32 :: "Cursor \<Rightarrow> (32 word \<times> Cursor) option" where
  "readBE32 r = (if length r < 4 then None else Some (beWord (take 4 r), drop 4 r))"

definition readBE64 :: "Cursor \<Rightarrow> (64 word \<times> Cursor) option" where
  "readBE64 r = (if length r < 8 then None else Some (beWord (take 8 r), drop 8 r))"

definition skip :: "nat \<Rightarrow> Cursor \<Rightarrow> Cursor option" where
  "skip n r = (if length r < n then None else Some (drop n r))"

definition clone :: "nat \<Rightarrow> Cursor \<Rightarrow> (IOBuf \<times> Cursor) option" where
  "clone n r = (if length r < n then None else Some (IOBuf (take n r) [], drop n r))"

text \<open>
  \<^verbatim>\<open>io::RWPrivateCursor\<close>, writing into one buffer: the bytes of the chain and the
  position. \<^verbatim>\<open>IOBuf::create(n)\<close> followed by \<^verbatim>\<open>append(n)\<close> gives \<open>n\<close> bytes that nothing
  has initialised: they are whatever the allocation held, the parameter \<open>held\<close>.
  \<^verbatim>\<open>writeBE\<close> overwrites at the position and throws \<^verbatim>\<open>std::out_of_range\<close> when the room
  is short; \<^verbatim>\<open>skip\<close> moves over bytes without writing them; \<^verbatim>\<open>insert\<close> links a chain
  in at the position.
\<close>

record RWPrivateCursor =
  bytes :: "byte list"
  pos :: nat

definition create_append :: "nat \<Rightarrow> (nat \<Rightarrow> byte) \<Rightarrow> byte list" where
  "create_append n held = map held [0..<n]"

definition RWPrivateCursor :: "byte list \<Rightarrow> RWPrivateCursor" where
  "RWPrivateCursor b = \<lparr>bytes = b, pos = 0\<rparr>"

definition push :: "byte list \<Rightarrow> RWPrivateCursor \<Rightarrow> RWPrivateCursor option" where
  "push bs w =
     (if length (bytes w) < pos w + length bs then None
      else Some \<lparr>bytes = take (pos w) (bytes w) @ bs @ drop (pos w + length bs) (bytes w),
                 pos = pos w + length bs\<rparr>)"

definition writeBE32 :: "32 word \<Rightarrow> RWPrivateCursor \<Rightarrow> RWPrivateCursor option" where
  "writeBE32 v w = push (beBytes 4 v) w"

definition writeBE64 :: "64 word \<Rightarrow> RWPrivateCursor \<Rightarrow> RWPrivateCursor option" where
  "writeBE64 v w = push (beBytes 8 v) w"

definition skipW :: "nat \<Rightarrow> RWPrivateCursor \<Rightarrow> RWPrivateCursor option" where
  "skipW n w = (if length (bytes w) < pos w + n then None else Some (w\<lparr>pos := pos w + n\<rparr>))"

definition insert_chain :: "IOBuf \<Rightarrow> RWPrivateCursor \<Rightarrow> RWPrivateCursor" where
  "insert_chain b w =
     \<lparr>bytes = take (pos w) (bytes w) @ chainBytes b @ drop (pos w) (bytes w),
      pos = pos w + computeChainDataLength b\<rparr>"

section \<open>Request and Response\<close>

record Request =
  protocolVersion :: "8 word"
  reqOpCode :: BookieOperation
  reqFlags :: "16 word"
  ledgerId :: "64 word"
  entryId :: "64 word"
  data :: IOBufPtr

record Response =
  respProtocolVersion :: "8 word"
  respOpCode :: BookieOperation
  errorCode :: "32 word"
  respLedgerId :: "64 word"
  respEntryId :: "64 word"
  respData :: IOBufPtr

section \<open>Declarations taken from a header that is not among the sources\<close>

text \<open>
  \<^verbatim>\<open>BookieCodecV2.cpp\<close> includes \<^verbatim>\<open>BookieCodecV2.h\<close>, which is not among the sources.
  What the code uses of it is taken as parameters: the three enumerators of
  \<^verbatim>\<open>BookieOperation\<close>, the constant \<^verbatim>\<open>BookieConstant::MasterKeyLength\<close>, the method
  \<^verbatim>\<open>Request::isFencing()\<close>, and the values \<open>newRequest\<close> and \<open>newResponse\<close> that
  \<^verbatim>\<open>Request request;\<close> and \<^verbatim>\<open>Response response;\<close> construct.
  Modelled from the spec: \<^verbatim>\<open>isFencing()\<close> derives from a bit in \<^verbatim>\<open>flags\<close>, so it is a
  predicate on the flags of the request. \<^verbatim>\<open>MasterKeyLength\<close> is a length, small enough
  for \<^verbatim>\<open>MasterKeyLength + 20\<close> to be an \<^verbatim>\<open>int\<close>.
\<close>

record BookieDecls =
  AddEntry :: BookieOperation
  ReadEntry :: BookieOperation
  Auth :: BookieOperation
  MasterKeyLength :: nat
  isFencing :: "16 word \<Rightarrow> bool"
  newRequest :: Request
  newResponse :: Response

text \<open>
  The enumerators are the labels of one \<^verbatim>\<open>switch\<close>, so they are pairwise different.
\<close>

definition enumerators_distinct :: "BookieDecls \<Rightarrow> bool" where
  "enumerators_distinct c = distinct [AddEntry c, ReadEntry c, Auth c]"

text \<open>
  The numbering of the BookKeeper wire protocol, version 2, with its master key of
  20 bytes and the fencing flag in the lowest bit: one instance of the parameters,
  for evaluating the definitions.
\<close>

definition bookkeeper :: BookieDecls where
  "bookkeeper = \<lparr>AddEntry = 1, ReadEntry = 2, Auth = 3, MasterKeyLength = 20,
     isFencing = (\<lambda>f. f AND 1 \<noteq> 0),
     newRequest = \<lparr>protocolVersion = 0, reqOpCode = 0, reqFlags = 0, ledgerId = 0,
       entryId = 0, data = None\<rparr>,
     newResponse = \<lparr>respProtocolVersion = 0, respOpCode = 0, errorCode = 0,
       respLedgerId = 0, respEntryId = 0, respData = None\<rparr>\<rparr>"

section \<open>PacketHeader\<close>

record PacketHeader =
  version :: "8 word"
  opCode :: BookieOperation
  flags :: "16 word"

text \<open>
  \<^verbatim>\<open>fromInt\<close>: \<^verbatim>\<open>value >> 24\<close> on an \<^verbatim>\<open>int\<close> is the arithmetic shift, and the assignment to
  an \<^verbatim>\<open>int8_t\<close> or \<^verbatim>\<open>int16_t\<close> field keeps the low bits.
\<close>

definition fromInt :: "32 word \<Rightarrow> PacketHeader" where
  "fromInt v = \<lparr>version = ucast (signed_drop_bit 24 v),
               opCode = ucast (signed_drop_bit 16 v AND 0xFF),
               flags = ucast (v AND 0xFF)\<rparr>"

text \<open>
  \<^verbatim>\<open>toInt\<close>: each field is promoted to \<^verbatim>\<open>int\<close> with its sign (\<open>scast\<close>), masked, shifted.
  A version with its top bit set is shifted into the sign bit of the \<^verbatim>\<open>int\<close>.
\<close>

definition toInt :: "PacketHeader \<Rightarrow> 32 word" where
  "toInt h = push_bit 24 (scast (version h) AND 0xFF)
          OR push_bit 16 (scast (opCode h) AND 0xFF)
          OR (scast (flags h) AND 0xFFFF)"

section \<open>The codec\<close>

text \<open>
  What a \<^verbatim>\<open>read\<close> handler does with the context: it returns without an event, it
  calls \<^verbatim>\<open>fireClose()\<close>, or it calls \<^verbatim>\<open>fireRead\<close> with the parsed value. \<open>None\<close>
  is an exception of a cursor leaving the handler.
\<close>

datatype 'a inbound = Returned | FireClose | FireRead 'a

definition ServerRead :: "BookieDecls \<Rightarrow> IOBufPtr \<Rightarrow> Request inbound option" where
  "ServerRead c buf =
     (case buf of
        None \<Rightarrow> Some Returned
      | Some b \<Rightarrow>
          let reader = Cursor b in
          if totalLength reader < 4 then Some FireClose
          else do {
            (v, reader) \<leftarrow> readBE32 reader;
            let hdr = fromInt v;
            let request = (newRequest c)\<lparr>protocolVersion := version hdr,
                  reqOpCode := opCode hdr, reqFlags := flags hdr\<rparr>;
            if reqOpCode request = AddEntry c then
              let addRequestSize = MasterKeyLength c + 2 * 8 in
              if totalLength reader < addRequestSize then Some FireClose
              else do {
                reader \<leftarrow> skip (MasterKeyLength c) reader;
                (l, reader) \<leftarrow> readBE64 reader;
                (e, reader) \<leftarrow> readBE64 reader;
                (d, reader) \<leftarrow> clone (totalLength reader) reader;
                Some (FireRead (request\<lparr>ledgerId := l, entryId := e, data := Some d\<rparr>))
              }
            else if reqOpCode request = ReadEntry c then
              let readRequestSize = 2 * 8
                    + (if isFencing c (reqFlags request) then MasterKeyLength c else 0) in
              if totalLength reader < readRequestSize then Some FireClose
              else do {
                (l, reader) \<leftarrow> readBE64 reader;
                (e, reader) \<leftarrow> readBE64 reader;
                reader \<leftarrow> (if isFencing c (reqFlags request)
                            then skip (MasterKeyLength c) reader else Some reader);
                Some (FireRead (request\<lparr>ledgerId := l, entryId := e\<rparr>))
              }
            else Some (FireRead request)
          })"

text \<open>
  A \<^verbatim>\<open>write\<close> handler ends in \<^verbatim>\<open>ctx->fireWrite(buffer)\<close>: the result is the bytes of the
  chain it hands on. \<open>Inl\<close> is how it fails before that. In
  \<^verbatim>\<open>BookieServerCodecV2::write\<close> the branch of \<^verbatim>\<open>ReadEntry\<close> tests \<^verbatim>\<open>response.data\<close> and
  does nothing with it.
\<close>

datatype failure = NullDereference | OutOfRange

definition ServerWrite :: "BookieDecls \<Rightarrow> (nat \<Rightarrow> byte) \<Rightarrow> Response \<Rightarrow> failure + byte list" where
  "ServerWrite c held response =
     (let headerSize = 4 + 24;
          frameSize = headerSize;
          bufferSize = frameSize + 4;
          buf = create_append bufferSize held;
          pktHeader = \<lparr>version = respProtocolVersion response,
                       opCode = respOpCode response, flags = 0\<rparr>;
          writer = RWPrivateCursor buf
      in case do {
            writer \<leftarrow> writeBE32 (of_nat frameSize) writer;
            writer \<leftarrow> writeBE32 (toInt pktHeader) writer;
            if respOpCode response = AddEntry c then do {
              writer \<leftarrow> writeBE32 (errorCode response) writer;
              writer \<leftarrow> writeBE64 (respLedgerId response) writer;
              writeBE64 (respEntryId response) writer
            }
            else if respOpCode response = ReadEntry c then do {
              writer \<leftarrow> writeBE32 (errorCode response) writer;
              writer \<leftarrow> writeBE64 (respLedgerId response) writer;
              writer \<leftarrow> writeBE64 (respEntryId response) writer;
              (case respData response of None \<Rightarrow> Some writer | Some d \<Rightarrow> Some writer)
            }
            else Some writer
          } of
            None \<Rightarrow> Inl OutOfRange
          | Some writer \<Rightarrow> Inr (bytes writer))"

definition ClientRead :: "BookieDecls \<Rightarrow> IOBufPtr \<Rightarrow> Response inbound option" where
  "ClientRead c buf =
     (case buf of
        None \<Rightarrow> Some Returned
      | Some b \<Rightarrow>
          let reader = Cursor b in
          if totalLength reader < 4 then Some FireClose
          else do {
            (v, reader) \<leftarrow> readBE32 reader;
            let hdr = fromInt v;
            let response = (newResponse c)\<lparr>respProtocolVersion := version hdr,
                  respOpCode := opCode hdr\<rparr>;
            if respOpCode response = AddEntry c then do {
              (ec, reader) \<leftarrow> readBE32 reader;
              (l, reader) \<leftarrow> readBE64 reader;
              (e, reader) \<leftarrow> readBE64 reader;
              Some (FireRead (response\<lparr>errorCode := ec, respLedgerId := l,
                      respEntryId := e\<rparr>))
            }
            else if respOpCode response = ReadEntry c then do {
              (ec, reader) \<leftarrow> readBE32 reader;
              (l, reader) \<leftarrow> readBE64 reader;
              (e, reader) \<leftarrow> readBE64 reader;
              Some (FireRead (response\<lparr>errorCode := ec, respLedgerId := l,
                      respEntryId := e\<rparr>))
            }
            else Some (FireRead response)
          })"

text \<open>
  \<^verbatim>\<open>BookieClientCodecV2::write\<close>. \<^verbatim>\<open>frameSize\<close> is computed from
  \<^verbatim>\<open>request.data->length()\<close> before the \<^verbatim>\<open>switch\<close>: with a null \<^verbatim>\<open>data\<close> that is a
  dereference of a null pointer. The sum is narrowed to \<^verbatim>\<open>int\<close> and written as
  32 bits. The buffer has \<^verbatim>\<open>headerSize + 4\<close> bytes, whatever \<^verbatim>\<open>data\<close> is.
\<close>

definition ClientWrite :: "BookieDecls \<Rightarrow> (nat \<Rightarrow> byte) \<Rightarrow> Request \<Rightarrow> failure + byte list" where
  "ClientWrite c held request =
     (case data request of
        None \<Rightarrow> Inl NullDereference
      | Some d \<Rightarrow>
          let headerSize = 4 + MasterKeyLength c + 2 * 8;
              frameSize = headerSize + IOBuf_length d;
              bufferSize = headerSize + 4;
              buffer = create_append bufferSize held;
              pktHeader = \<lparr>version = protocolVersion request,
                           opCode = reqOpCode request, flags = reqFlags request\<rparr>;
              writer = RWPrivateCursor buffer
          in case do {
                writer \<leftarrow> writeBE32 (of_nat frameSize) writer;
                writer \<leftarrow> writeBE32 (toInt pktHeader) writer;
                if reqOpCode request = AddEntry c then do {
                  writer \<leftarrow> skipW (MasterKeyLength c) writer;
                  writer \<leftarrow> writeBE64 (ledgerId request) writer;
                  writer \<leftarrow> writeBE64 (entryId request) writer;
                  Some (insert_chain d writer)
                }
                else Some writer
              } of
                None \<Rightarrow> Inl OutOfRange
              | Some writer \<Rightarrow> Inr (bytes writer))"

section \<open>Frames\<close>

text \<open>
  The first four bytes of a frame, read as a big-endian number, and the number of bytes
  that follow them.
\<close>

definition frameSize_of :: "byte list \<Rightarrow> nat" where
  "frameSize_of frame = unat (beWord (take 4 frame) :: 32 word)"

definition bytes_after_prefix :: "byte list \<Rightarrow> nat" where
  "bytes_after_prefix frame = length frame - 4"

text \<open>
  Modelled from the spec: the network pipeline that carries a frame from the encoder to
  the decoder is not among the sources. The spec has the frame as
  \<^verbatim>\<open>[4-byte frameSize][4-byte packed header][opcode payload]\<close>, \<^verbatim>\<open>frameSize\<close> the byte count
  of everything after itself, and has the decoder start at the packed header: the
  receiver takes the prefix off and hands on the \<^verbatim>\<open>frameSize\<close> bytes behind it.
\<close>

definition delimited :: "byte list \<Rightarrow> byte list" where
  "delimited frame = take (frameSize_of frame) (drop 4 frame)"

section \<open>Values for evaluating the codec\<close>

text \<open>An allocation that held zeros, and one that held the byte \<^verbatim>\<open>0xEE\<close>.\<close>

definition zeros :: "nat \<Rightarrow> byte" where
  "zeros i = 0"

definition stale :: "nat \<Rightarrow> byte" where
  "stale i = 238"

definition request1 :: Request where
  "request1 = \<lparr>protocolVersion = 2, reqOpCode = 1, reqFlags = 0, ledgerId = 7,
      entryId = 9, data = Some (IOBuf [104, 105] [[33]])\<rparr>"

definition request2 :: Request where
  "request2 = \<lparr>protocolVersion = 2, reqOpCode = 2, reqFlags = 0, ledgerId = 7,
      entryId = 9, data = Some (IOBuf [104] [])\<rparr>"

definition request3 :: Request where
  "request3 = \<lparr>protocolVersion = 2, reqOpCode = 1, reqFlags = 0, ledgerId = 7,
      entryId = 9, data = Some (IOBuf [104, 105] [])\<rparr>"

definition request4 :: Request where
  "request4 = \<lparr>protocolVersion = 2, reqOpCode = 3, reqFlags = 0, ledgerId = 7,
      entryId = 9, data = None\<rparr>"

definition response2 :: Response where
  "response2 = \<lparr>respProtocolVersion = 2, respOpCode = 1, errorCode = 0,
      respLedgerId = 7, respEntryId = 9, respData = None\<rparr>"


definition frame1 :: "byte list" where
  "frame1 = [0, 0, 0, 42, 2, 1, 0, 0, 0, 0, 0, 0, 0, 0, 0, 0, 0, 0, 0, 0, 0, 0, 0,
      0, 0, 0, 0, 0, 0, 0, 0, 0, 0, 0, 0, 7, 0, 0, 0, 0, 0, 0, 0, 9, 104,
      105, 33]"

definition frame3 :: "byte list" where
  "frame3 = [0, 0, 0, 28, 2, 1, 0, 0, 0, 0, 0, 0, 0, 0, 0, 0, 0, 0, 0, 7, 0, 0, 0,
      0, 0, 0, 0, 9, 238, 238, 238, 238]"


section \<open>Storage and its journal thread\<close>

text \<open>
  A \<^verbatim>\<open>Promise<Unit>\<close> object is known by a number; a \<^verbatim>\<open>PromisePtr\<close> is a \<^verbatim>\<open>unique_ptr\<close>,
  \<open>None\<close> when null. \<^verbatim>\<open>put\<close> returns a future: one made with the value
  (\<^verbatim>\<open>makeFuture(Unit())\<close>), one made with the exception, or the future of a promise.
\<close>

type_synonym Promise = nat
type_synonym PromisePtr = "Promise option"

datatype Future = MadeValue | MadeException | FutureOf Promise

text \<open>
  Where the journal thread is in \<^verbatim>\<open>runJournal\<close>: not started, before
  \<^verbatim>\<open>limiter.aquire()\<close>, before a \<^verbatim>\<open>journalQueue_.read(promise)\<close>, before
  \<^verbatim>\<open>db_->SyncWAL()\<close>, before the loop of \<^verbatim>\<open>setValue\<close>, or returned.
\<close>

datatype location = NotStarted | AtAcquire | AtRead | AtSyncWAL | AtSetValue | Exited

text \<open>
  What the journal thread does, as it is logged: a read that takes an item from the
  queue, a read that finds the queue empty, the call of \<^verbatim>\<open>SyncWAL\<close>, a \<^verbatim>\<open>setValue\<close> on a
  promise, the \<^verbatim>\<open>return\<close>.
\<close>

datatype action = Read PromisePtr | ReadNothing | SyncWAL | SetValue Promise | Return

text \<open>
  The object. \<open>fsyncWal\<close>, \<open>journalQueue\<close> and \<open>journalThread\<close> are the members
  \<^verbatim>\<open>fsyncWal_\<close>, \<^verbatim>\<open>journalQueue_\<close> and \<^verbatim>\<open>journalThread_\<close>; \<open>entriesToSync\<close> is the vector
  local to \<^verbatim>\<open>runJournal\<close>. The other fields record what has happened: how many promises
  \<^verbatim>\<open>put\<close> has made, what has been written to the queue, in order, the futures \<^verbatim>\<open>put\<close> has
  returned, the promises that were destroyed without a value, and the actions of the
  journal thread, one list for each pass of its \<^verbatim>\<open>while (true)\<close>, the latest pass first.
\<close>

record Storage =
  fsyncWal :: bool
  journalQueue :: "PromisePtr list"
  journalThread :: location
  entriesToSync :: "Promise list"
  made :: nat
  written :: "PromisePtr list"
  futures :: "Future list"
  destroyed :: "Promise list"
  journalLog :: "action list list"

text \<open>\<^verbatim>\<open>journalQueue_(10000)\<close>: the queue holds at most 10000 items.\<close>

definition capacity :: nat where
  "capacity = 10000"

text \<open>
  The constructor starts the journal thread when \<^verbatim>\<open>fsyncWal_\<close> is set, and leaves the
  process (\<^verbatim>\<open>std::exit(1)\<close>) when the database does not open: \<open>None\<close>.
\<close>

definition constructed :: "bool \<Rightarrow> Storage" where
  "constructed conf_fsyncWal =
     \<lparr>fsyncWal = conf_fsyncWal, journalQueue = [],
      journalThread = (if conf_fsyncWal then AtAcquire else NotStarted),
      entriesToSync = [], made = 0, written = [], futures = [], destroyed = [],
      journalLog = []\<rparr>"

definition Storage :: "bool \<Rightarrow> bool \<Rightarrow> Storage option" where
  "Storage conf_fsyncWal opened = (if opened then Some (constructed conf_fsyncWal) else None)"

text \<open>
  The destructor's \<^verbatim>\<open>journalQueue_.blockingWrite(nullptr)\<close> writes the null promise once
  the queue has room, and waits as long as it has none.
\<close>

definition destructor :: "Storage \<Rightarrow> Storage" where
  "destructor s =
     (if fsyncWal s \<and> length (journalQueue s) < capacity
      then s\<lparr>journalQueue := journalQueue s @ [None], written := written s @ [None]\<rparr>
      else s)"

text \<open>
  \<^verbatim>\<open>put\<close>, with the status of \<^verbatim>\<open>db_->Put\<close> as \<open>res_ok\<close>. \<^verbatim>\<open>journalQueue_.write\<close> does not
  block: on a full queue it leaves the promise with the caller, and the promise is
  destroyed when \<^verbatim>\<open>put\<close> returns.
\<close>

definition put :: "bool \<Rightarrow> Storage \<Rightarrow> Future \<times> Storage" where
  "put res_ok s =
     (if res_ok then
        if fsyncWal s then
          let promise = made s;
              future = FutureOf promise;
              s = s\<lparr>made := Suc (made s)\<rparr>
          in if length (journalQueue s) < capacity
             then (future, s\<lparr>journalQueue := journalQueue s @ [Some promise],
                              written := written s @ [Some promise]\<rparr>)
             else (future, s\<lparr>destroyed := destroyed s @ [promise]\<rparr>)
        else (MadeValue, s)
      else (MadeException, s))"

text \<open>An action of the journal thread goes to the end of the latest pass.\<close>

fun logged :: "action list \<Rightarrow> action list list \<Rightarrow> action list list" where
  "logged as [] = [as]"
| "logged as (c # cs) = (c @ as) # cs"

text \<open>
  One step of \<^verbatim>\<open>runJournal\<close>, from where the thread is. A read of the null promise
  returns at once; the vector \<open>entriesToSync\<close> goes out of scope with whatever it holds.
\<close>

definition runJournal :: "Storage \<Rightarrow> Storage" where
  "runJournal s =
     (case journalThread s of
        NotStarted \<Rightarrow> s
      | AtAcquire \<Rightarrow> s\<lparr>journalThread := AtRead, journalLog := [] # journalLog s\<rparr>
      | AtRead \<Rightarrow>
          (case journalQueue s of
             [] \<Rightarrow>
               s\<lparr>journalThread := (if entriesToSync s = [] then AtAcquire else AtSyncWAL),
                  journalLog := logged [ReadNothing] (journalLog s)\<rparr>
           | None # q \<Rightarrow>
               s\<lparr>journalQueue := q, journalThread := Exited,
                  destroyed := destroyed s @ entriesToSync s, entriesToSync := [],
                  journalLog := logged [Read None, Return] (journalLog s)\<rparr>
           | Some promise # q \<Rightarrow>
               s\<lparr>journalQueue := q, entriesToSync := entriesToSync s @ [promise],
                  journalLog := logged [Read (Some promise)] (journalLog s)\<rparr>)
      | AtSyncWAL \<Rightarrow>
          s\<lparr>journalThread := AtSetValue, journalLog := logged [SyncWAL] (journalLog s)\<rparr>
      | AtSetValue \<Rightarrow>
          s\<lparr>journalThread := AtAcquire, entriesToSync := [],
             journalLog := logged (map SetValue (entriesToSync s)) (journalLog s)\<rparr>
      | Exited \<Rightarrow> s)"

text \<open>
  The threads take turns: a caller runs \<^verbatim>\<open>put\<close>, the journal thread takes a step, or
  the destructor writes the null promise. A schedule is a list of such turns.
\<close>

datatype event = Put bool | Journal | Shutdown

fun step :: "event \<Rightarrow> Storage \<Rightarrow> Storage" where
  "step (Put res_ok) s = (case put res_ok s of (f, s') \<Rightarrow> s'\<lparr>futures := futures s' @ [f]\<rparr>)"
| "step Journal s = runJournal s"
| "step Shutdown s = destructor s"

definition run :: "event list \<Rightarrow> Storage \<Rightarrow> Storage" where
  "run sched s = fold step sched s"

text \<open>
  The promises a pass has taken from the queue, the items it has taken, and the two
  complete passes: one that ends on the empty queue, with its \<^verbatim>\<open>SyncWAL\<close> and
  \<^verbatim>\<open>setValue\<close>s when it took a promise, and one that ends on the null promise.
\<close>

fun drained :: "action list \<Rightarrow> Promise list" where
  "drained [] = []"
| "drained (Read (Some p) # c) = p # drained c"
| "drained (a # c) = drained c"

fun taken :: "action list \<Rightarrow> PromisePtr list" where
  "taken [] = []"
| "taken (Read x # c) = x # taken c"
| "taken (a # c) = taken c"

definition full_cycle :: "Promise list \<Rightarrow> action list" where
  "full_cycle ps = map (\<lambda>p. Read (Some p)) ps @ [ReadNothing]
       @ (if ps = [] then [] else SyncWAL # map SetValue ps)"

definition exit_cycle :: "Promise list \<Rightarrow> action list" where
  "exit_cycle ps = map (\<lambda>p. Read (Some p)) ps @ [Read None, Return]"

text \<open>
  The passes that are over: all but the latest, and the latest too when the thread is
  back at \<^verbatim>\<open>limiter.aquire()\<close> or has returned.
\<close>

definition finished :: "Storage \<Rightarrow> action list list" where
  "finished s =
     (if journalThread s = AtAcquire \<or> journalThread s = Exited
      then journalLog s else tl (journalLog s))"

text \<open>What every step of every thread keeps.\<close>

definition journal_inv :: "Storage \<Rightarrow> bool" where
  "journal_inv s \<longleftrightarrow>
     (\<forall>c \<in> set (tl (journalLog s)). c = full_cycle (drained c))
   \<and> written s = concat (map taken (rev (journalLog s))) @ journalQueue s
   \<and> (case journalThread s of
        NotStarted \<Rightarrow> journalLog s = []
      | AtAcquire \<Rightarrow>
          entriesToSync s = [] \<and> (\<forall>c \<in> set (journalLog s). c = full_cycle (drained c))
      | AtRead \<Rightarrow>
          (\<exists>cs. journalLog s = map (\<lambda>p. Read (Some p)) (entriesToSync s) # cs)
      | AtSyncWAL \<Rightarrow>
          entriesToSync s \<noteq> []
          \<and> (\<exists>cs. journalLog s
                 = (map (\<lambda>p. Read (Some p)) (entriesToSync s) @ [ReadNothing]) # cs)
      | AtSetValue \<Rightarrow>
          entriesToSync s \<noteq> []
          \<and> (\<exists>cs. journalLog s
                 = (map (\<lambda>p. Read (Some p)) (entriesToSync s) @ [ReadNothing, SyncWAL]) # cs)
      | Exited \<Rightarrow>
          (\<exists>ps cs. journalLog s = exit_cycle ps # cs \<and> set ps \<subseteq> set (destroyed s)))"

definition non_durable :: "Storage \<Rightarrow> bool" where
  "non_durable s \<longleftrightarrow> \<not> fsyncWal s \<and> journalQueue s = [] \<and> written s = []
     \<and> journalThread s = NotStarted \<and> journalLog s = []
     \<and> set (futures s) \<subseteq> {MadeValue, MadeException}"

definition handed :: "Storage \<Rightarrow> bool" where
  "handed s \<longleftrightarrow> (\<forall>p. Some p \<in> set (written s) \<longrightarrow> FutureOf p \<in> set (futures s))"

section \<open>Schedules for evaluating the journal\<close>

definition puts_without_fsync :: "event list" where
  "puts_without_fsync = [Put True, Journal, Put False, Shutdown, Journal, Put True]"

definition shutdown_with_one_pending :: "event list" where
  "shutdown_with_one_pending = [Put True, Shutdown, Journal, Journal, Journal]"

definition sentinel_at_head :: "event list" where
  "sentinel_at_head = [Put True, Shutdown, Journal, Journal]"

definition two_synced_one_pending :: "event list" where
  "two_synced_one_pending =
     [Put True, Journal, Journal, Put True, Journal, Journal, Journal, Journal,
      Put True, Shutdown, Journal, Journal, Journal]"

section \<open>PacketHeader: what a round trip keeps\<close>

lemma mask8_32: "(0xFF :: 32 word) = mask 8"
  by (simp add: mask_eq_exp_minus_1)

lemma mask16_32: "(0xFFFF :: 32 word) = mask 16"
  by (simp add: mask_eq_exp_minus_1)

lemma mask8_16: "(0xFF :: 16 word) = mask 8"
  by (simp add: mask_eq_exp_minus_1)

lemma fromInt_toInt_version: "version (fromInt (toInt h)) = version h"
  unfolding fromInt_def toInt_def mask8_32 mask16_32
  by (rule bit_word_eqI) (auto simp add: bit_simps)

lemma fromInt_toInt_opCode: "opCode (fromInt (toInt h)) = opCode h"
  unfolding fromInt_def toInt_def mask8_32 mask16_32
  by (rule bit_word_eqI) (auto simp add: bit_simps)

lemma fromInt_toInt_flags: "flags (fromInt (toInt h)) = flags h AND 0xFF"
  unfolding fromInt_def toInt_def mask8_32 mask16_32 mask8_16
  by (rule bit_word_eqI) (auto simp add: bit_simps)

lemma fromInt_toInt: "fromInt (toInt h) = h\<lparr>flags := flags h AND 0xFF\<rparr>"
  by (rule PacketHeader.equality)
     (simp_all add: fromInt_toInt_version fromInt_toInt_opCode fromInt_toInt_flags)

text \<open>
  C1. The round trip \<^verbatim>\<open>fromInt(h.toInt())\<close> at the header with version 2, the operation
  \<^verbatim>\<open>AddEntry\<close>, whatever its number is, and the flags \<^verbatim>\<open>0x0100\<close>: the header that comes
  back has the flags 0, so it is not the header that went in. \<^verbatim>\<open>fromInt\<close> masks the flags with \<^verbatim>\<open>0xFF\<close>, where
  \<^verbatim>\<open>toInt\<close> masks them with \<^verbatim>\<open>0xFFFF\<close>.
\<close>

theorem C1_fromInt_toInt_drops_high_flags:
  "fromInt (toInt \<lparr>version = 2, opCode = AddEntry c, flags = 0x100\<rparr>)
     = \<lparr>version = 2, opCode = AddEntry c, flags = 0\<rparr>
   \<and> fromInt (toInt \<lparr>version = 2, opCode = AddEntry c, flags = 0x100\<rparr>)
     \<noteq> \<lparr>version = 2, opCode = AddEntry c, flags = 0x100\<rparr>"
  by (simp add: fromInt_toInt)

section \<open>Big-endian words and cursors\<close>

lemma length_beBytes [simp]: "length (beBytes n w) = n"
  by (simp add: beBytes_def)

lemma take_bit_next_byte:
  "take_bit (8 + 8 * n) (w :: 'a::len word)
     = push_bit (8 * n) (ucast (ucast (drop_bit (8 * n) w) :: byte)) OR take_bit (8 * n) w"
  by (rule bit_word_eqI) (auto simp add: bit_simps)

lemma foldl_beBytes:
  "foldl (\<lambda>w b. push_bit 8 w OR ucast b) acc (beBytes n w)
     = push_bit (8 * n) acc OR take_bit (8 * n) (w :: 'a::len word)"
proof (induction n arbitrary: acc)
  case 0
  show ?case by (simp add: beBytes_def)
next
  case (Suc n)
  have "beBytes (Suc n) w = ucast (drop_bit (8 * n) w) # beBytes n w"
    by (simp add: beBytes_def)
  then show ?case
    using Suc.IH by (simp add: take_bit_next_byte push_bit_or push_bit_push_bit or.assoc add.commute)
qed

lemma beWord_beBytes: "LENGTH('a) \<le> 8 * n \<Longrightarrow> beWord (beBytes n w) = (w :: 'a::len word)"
  by (simp add: beWord_def foldl_beBytes take_bit_word_eq_self)

lemma readBE32_beBytes [simp]: "readBE32 (beBytes 4 v @ r) = Some (v, r)"
  by (simp add: readBE32_def beWord_beBytes)

lemma readBE64_beBytes [simp]: "readBE64 (beBytes 8 v @ r) = Some (v, r)"
  by (simp add: readBE64_def beWord_beBytes)

lemma length_create_append [simp]: "length (create_append n held) = n"
  by (simp add: create_append_def)

lemma unat_of_nat32: "n < 2 ^ 31 \<Longrightarrow> unat (of_nat n :: 32 word) = n"
  by (simp add: unat_of_nat)

section \<open>What the handlers compute\<close>

lemma ServerWrite_fields:
  "respOpCode response = AddEntry c \<or> respOpCode response = ReadEntry c \<Longrightarrow>
   ServerWrite c held response =
     Inr (beBytes 4 (28 :: 32 word)
        @ beBytes 4 (toInt \<lparr>version = respProtocolVersion response, opCode = respOpCode response, flags = 0\<rparr>)
        @ beBytes 4 (errorCode response) @ beBytes 8 (respLedgerId response)
        @ beBytes 8 (respEntryId response) @ map held [28..<32])"
  by (auto simp add: ServerWrite_def Let_def writeBE32_def writeBE64_def push_def
        RWPrivateCursor_def create_append_def drop_map split: option.splits)

lemma ServerWrite_other:
  "\<not> (respOpCode response = AddEntry c \<or> respOpCode response = ReadEntry c) \<Longrightarrow>
   ServerWrite c held response =
     Inr (beBytes 4 (28 :: 32 word)
        @ beBytes 4 (toInt \<lparr>version = respProtocolVersion response, opCode = respOpCode response, flags = 0\<rparr>)
        @ map held [8..<32])"
  by (auto simp add: ServerWrite_def Let_def writeBE32_def writeBE64_def push_def
        RWPrivateCursor_def create_append_def drop_map split: option.splits)

lemma ClientWrite_null: "data request = None \<Longrightarrow> ClientWrite c held request = Inl NullDereference"
  by (simp add: ClientWrite_def)

lemma ClientWrite_AddEntry:
  "data request = Some d \<Longrightarrow> reqOpCode request = AddEntry c \<Longrightarrow>
   ClientWrite c held request =
     Inr (beBytes 4 (of_nat (4 + MasterKeyLength c + 16 + IOBuf_length d) :: 32 word)
        @ beBytes 4 (toInt \<lparr>version = protocolVersion request, opCode = reqOpCode request, flags = reqFlags request\<rparr>)
        @ map held [8..<8 + MasterKeyLength c]
        @ beBytes 8 (ledgerId request) @ beBytes 8 (entryId request) @ chainBytes d)"
  by (simp add: ClientWrite_def Let_def writeBE32_def writeBE64_def push_def skipW_def
        RWPrivateCursor_def create_append_def drop_map take_map insert_chain_def)

lemma ClientWrite_stub:
  "data request = Some d \<Longrightarrow> reqOpCode request \<noteq> AddEntry c \<Longrightarrow>
   ClientWrite c held request =
     Inr (beBytes 4 (of_nat (4 + MasterKeyLength c + 16 + IOBuf_length d) :: 32 word)
        @ beBytes 4 (toInt \<lparr>version = protocolVersion request, opCode = reqOpCode request, flags = reqFlags request\<rparr>)
        @ map held [8..<24 + MasterKeyLength c])"
  by (simp add: ClientWrite_def Let_def writeBE32_def writeBE64_def push_def skipW_def
        RWPrivateCursor_def create_append_def drop_map take_map insert_chain_def)

lemma frameSize_of_beBytes [simp]: "frameSize_of (beBytes 4 (v :: 32 word) @ r) = unat v"
  by (simp add: frameSize_of_def beWord_beBytes)

lemma ServerRead_null: "ServerRead c None = Some Returned"
  by (simp add: ServerRead_def)

lemma ServerRead_short:
  "computeChainDataLength b < 4 \<Longrightarrow> ServerRead c (Some b) = Some FireClose"
  by (simp add: ServerRead_def Cursor_def totalLength_def computeChainDataLength_def)

lemma ClientRead_short:
  "computeChainDataLength b < 4 \<Longrightarrow> ClientRead c (Some b) = Some FireClose"
  by (simp add: ClientRead_def Cursor_def totalLength_def computeChainDataLength_def)

lemma ServerRead_header:
  "4 \<le> computeChainDataLength b \<Longrightarrow>
   ServerRead c (Some b) =
     (let reader = drop 4 (chainBytes b);
          hdr = fromInt (beWord (take 4 (chainBytes b)));
          request = (newRequest c)\<lparr>protocolVersion := version hdr,
                  reqOpCode := opCode hdr, reqFlags := flags hdr\<rparr> in
      if opCode hdr = AddEntry c then
        if length reader < MasterKeyLength c + 16 then Some FireClose
        else Some (FireRead (request\<lparr>
               ledgerId := beWord (take 8 (drop (MasterKeyLength c) reader)),
               entryId := beWord (take 8 (drop (MasterKeyLength c + 8) reader)),
               data := Some (IOBuf (drop (MasterKeyLength c + 16) reader) [])\<rparr>))
      else if opCode hdr = ReadEntry c then
        if length reader < 16 + (if isFencing c (flags hdr) then MasterKeyLength c else 0)
        then Some FireClose
        else Some (FireRead (request\<lparr>ledgerId := beWord (take 8 reader),
               entryId := beWord (take 8 (drop 8 reader))\<rparr>))
      else Some (FireRead request))"
  by (auto simp add: ServerRead_def Cursor_def totalLength_def computeChainDataLength_def Let_def
      readBE32_def readBE64_def skip_def clone_def add.commute)

lemma ClientRead_null: "ClientRead c None = Some Returned"
  by (simp add: ClientRead_def)

lemma ServerRead_AddEntry_frame:
  assumes "opCode h = AddEntry c"
    and "chainBytes b = beBytes 4 (toInt h) @ key @ beBytes 8 l @ beBytes 8 e @ p"
    and "length key = MasterKeyLength c"
  shows "ServerRead c (Some b) =
     Some (FireRead ((newRequest c)\<lparr>protocolVersion := version h, reqOpCode := AddEntry c,
        reqFlags := flags h AND 0xFF, ledgerId := l, entryId := e,
        data := Some (IOBuf p [])\<rparr>))"
proof -
  have len: "4 \<le> computeChainDataLength b"
    by (simp add: computeChainDataLength_def assms(2))
  have hd: "beWord (take 4 (chainBytes b)) = toInt h"
    by (simp add: assms(2) beWord_beBytes)
  have l: "take 8 (drop (MasterKeyLength c) (drop 4 (chainBytes b))) = beBytes 8 l"
    by (simp add: assms(2) assms(3))
  have e: "take 8 (drop (MasterKeyLength c + 8) (drop 4 (chainBytes b))) = beBytes 8 e"
    by (simp add: assms(2) assms(3))
  have p: "drop (MasterKeyLength c + 16) (drop 4 (chainBytes b)) = p"
    by (simp add: assms(2) assms(3))
  have n: "\<not> length (drop 4 (chainBytes b)) < MasterKeyLength c + 16"
    by (simp add: assms(2) assms(3))
  show ?thesis
    unfolding ServerRead_header [OF len] Let_def hd l e p
    using n assms(1)
    by (simp add: fromInt_toInt beWord_beBytes)
qed

section \<open>Decoding\<close>

text \<open>
  C7, as the code has it. A buffer that is not null and holds fewer than 4 bytes, the
  buffer of no bytes among them, makes both decoders call \<^verbatim>\<open>fireClose()\<close> and deliver
  nothing. A null buffer makes both return without an event.
\<close>

theorem C7_short_buffer_closes:
  assumes "computeChainDataLength b < 4"
  shows "ServerRead c (Some b) = Some FireClose \<and> ClientRead c (Some b) = Some FireClose
       \<and> ServerRead c None = Some Returned \<and> ClientRead c None = Some Returned"
  using assms by (simp add: ServerRead_short ClientRead_short ServerRead_null ClientRead_null)

theorem C7_witness:
  "computeChainDataLength (IOBuf [2, 1] [[0]]) < 4
   \<and> ServerRead bookkeeper (Some (IOBuf [2, 1] [[0]])) = Some FireClose
   \<and> ClientRead bookkeeper (Some (IOBuf [2, 1] [[0]])) = Some FireClose
   \<and> ServerRead bookkeeper None = Some Returned
   \<and> ClientRead bookkeeper None = Some Returned"
  using C7_short_buffer_closes [of "IOBuf [2, 1] [[0]]" bookkeeper]
  by (simp add: computeChainDataLength_def chainBytes_def)

theorem C7_empty_buffer_counterexample:
  "ServerRead bookkeeper (Some (IOBuf [] [])) = Some FireClose
   \<and> ServerRead bookkeeper (Some (IOBuf [] [])) \<noteq> Some Returned
   \<and> ClientRead bookkeeper (Some (IOBuf [] [])) = Some FireClose
   \<and> ClientRead bookkeeper (Some (IOBuf [] [])) \<noteq> Some Returned"
  by (simp add: ServerRead_def ClientRead_def Cursor_def chainBytes_def totalLength_def)

text \<open>
  C8. The buffer holds the 4 bytes of the header, and \<open>hdr\<close> is the header they decode
  to. When the operation is \<^verbatim>\<open>AddEntry\<close> and fewer than \<^verbatim>\<open>MasterKeyLength + 16\<close> bytes
  follow the header, or the operation is \<^verbatim>\<open>ReadEntry\<close> and fewer than 16 bytes, plus
  \<^verbatim>\<open>MasterKeyLength\<close> when the request is fencing, follow it, the server-side decoder
  calls \<^verbatim>\<open>fireClose()\<close> and delivers no request.
\<close>

theorem C8_short_payload_closes:
  assumes "enumerators_distinct c"
    and "4 \<le> computeChainDataLength b"
    and "hdr = fromInt (beWord (take 4 (chainBytes b)))"
    and "(opCode hdr = AddEntry c
            \<and> computeChainDataLength b - 4 < MasterKeyLength c + 16)
       \<or> (opCode hdr = ReadEntry c
            \<and> computeChainDataLength b - 4
                < 16 + (if isFencing c (flags hdr) then MasterKeyLength c else 0))"
  shows "ServerRead c (Some b) = Some FireClose"
  using assms
  by (auto simp add: ServerRead_header Let_def computeChainDataLength_def enumerators_distinct_def)

theorem C8_witness:
  "ServerRead bookkeeper (Some (IOBuf [2, 1, 0, 0] [replicate 35 7])) = Some FireClose
   \<and> ServerRead bookkeeper (Some (IOBuf [2, 2, 0, 1] [replicate 16 7, replicate 19 7])) = Some FireClose
   \<and> ServerRead bookkeeper (Some (IOBuf [2, 2, 0, 0] [replicate 15 7])) = Some FireClose"
  using C8_short_payload_closes [of bookkeeper "IOBuf [2, 1, 0, 0] [replicate 35 7]" "fromInt 0x02010000"]
    C8_short_payload_closes [of bookkeeper "IOBuf [2, 2, 0, 1] [replicate 16 7, replicate 19 7]" "fromInt 0x02020001"]
    C8_short_payload_closes [of bookkeeper "IOBuf [2, 2, 0, 0] [replicate 15 7]" "fromInt 0x02020000"]
  by (simp add: enumerators_distinct_def bookkeeper_def computeChainDataLength_def chainBytes_def
      beWord_def fromInt_def)

text \<open>
  An \<^verbatim>\<open>AddEntry\<close> request whose data is one buffer comes through whole: its prefix
  delimits all the bytes behind it, and the decoder, given them in a chain of buffers cut
  anywhere, delivers the ledger id, the entry id and the bytes of the payload.
\<close>

lemma AddEntry_round_trip_one_buffer:
  assumes "reqOpCode request = AddEntry c"
    and "data request = Some d"
    and "chained d = []"
    and "MasterKeyLength c + 20 + IOBuf_length d < 2 ^ 31"
  shows "\<exists>frame. ClientWrite c held request = Inr frame
      \<and> delimited frame = drop 4 frame
      \<and> (chainBytes b = delimited frame \<longrightarrow>
           (\<exists>r d'. ServerRead c (Some b) = Some (FireRead r)
              \<and> reqOpCode r = AddEntry c
              \<and> ledgerId r = ledgerId request
              \<and> entryId r = entryId request
              \<and> data r = Some d'
              \<and> chainBytes d' = chainBytes d))"
proof -
  let ?h = "\<lparr>version = protocolVersion request, opCode = reqOpCode request,
             flags = reqFlags request\<rparr>"
  let ?frame = "beBytes 4 (of_nat (4 + MasterKeyLength c + 16 + IOBuf_length d) :: 32 word)
        @ beBytes 4 (toInt ?h) @ map held [8..<8 + MasterKeyLength c]
        @ beBytes 8 (ledgerId request) @ beBytes 8 (entryId request) @ chainBytes d"
  have w: "ClientWrite c held request = Inr ?frame"
    by (rule ClientWrite_AddEntry [OF assms(2) assms(1)])
  have u: "unat (of_nat (4 + MasterKeyLength c + 16 + IOBuf_length d) :: 32 word)
      = 4 + MasterKeyLength c + 16 + IOBuf_length d"
    using assms(4) by (intro unat_of_nat32) simp
  have fs: "frameSize_of ?frame = 4 + MasterKeyLength c + 16 + IOBuf_length d"
    by (simp only: frameSize_of_beBytes u)
  have "length ?frame - 4 = 4 + MasterKeyLength c + 16 + IOBuf_length d"
    using assms(3) by (simp add: chainBytes_def IOBuf_length_def)
  with fs have "frameSize_of ?frame = length ?frame - 4"
    by simp
  then have d: "delimited ?frame = drop 4 ?frame"
    by (simp only: delimited_def) simp
  have r: "\<exists>r d'. ServerRead c (Some b) = Some (FireRead r)
              \<and> reqOpCode r = AddEntry c
              \<and> ledgerId r = ledgerId request
              \<and> entryId r = entryId request
              \<and> data r = Some d'
              \<and> chainBytes d' = chainBytes d" if b: "chainBytes b = delimited ?frame"
  proof -
    have cb: "chainBytes b = beBytes 4 (toInt ?h) @ map held [8..<8 + MasterKeyLength c]
        @ beBytes 8 (ledgerId request) @ beBytes 8 (entryId request) @ chainBytes d"
      using b by (simp only: d) simp
    have op: "opCode ?h = AddEntry c"
      by (simp add: assms(1))
    have key: "length (map held [8..<8 + MasterKeyLength c]) = MasterKeyLength c"
      by simp
    have "ServerRead c (Some b) =
       Some (FireRead ((newRequest c)\<lparr>protocolVersion := version ?h, reqOpCode := AddEntry c,
        reqFlags := flags ?h AND 0xFF, ledgerId := ledgerId request, entryId := entryId request,
        data := Some (IOBuf (chainBytes d) [])\<rparr>))"
      by (rule ServerRead_AddEntry_frame [OF op cb key])
    then show ?thesis by (simp add: chainBytes_def)
  qed
  show ?thesis using w d r by blast
qed

text \<open>
  C4. An \<^verbatim>\<open>AddEntry\<close> request whose payload is the chain of the buffers \<^verbatim>\<open>[104, 105]\<close>
  and \<^verbatim>\<open>[33]\<close> is encoded by the client: the length prefix is 42 and 43 bytes follow it,
  since \<^verbatim>\<open>request.data->length()\<close> is the length of the first buffer and
  \<^verbatim>\<open>writer.insert\<close> links the whole chain in. The receiver hands the 42 bytes that the
  prefix delimits to the server-side decoder, which delivers the ledger id and the entry
  id of the request with the data \<^verbatim>\<open>[104, 105]\<close>: the last byte of the payload is lost.
\<close>

theorem C4_prefix_cuts_chained_payload:
  "ClientWrite bookkeeper zeros request1 = Inr frame1
   \<and> map_option chainBytes (data request1) = Some [104, 105, 33]
   \<and> frameSize_of frame1 = 42
   \<and> bytes_after_prefix frame1 = 43
   \<and> delimited frame1 = take 42 (drop 4 frame1)
   \<and> ServerRead bookkeeper (Some (IOBuf (delimited frame1) []))
       = Some (FireRead \<lparr>protocolVersion = 2, reqOpCode = 1, reqFlags = 0, ledgerId = 7,
           entryId = 9, data = Some (IOBuf [104, 105] [])\<rparr>)"
  by code_simp

section \<open>Encoding\<close>

text \<open>
  C5, as the code has it. The client-side encoder of an \<^verbatim>\<open>AddEntry\<close> request whose data
  is one buffer, short enough for the sum to stay below \<open>2 ^ 31\<close>, emits behind the
  length prefix the packed header, \<^verbatim>\<open>MasterKeyLength\<close> bytes that it skips, the ledger
  id, the entry id and the payload, and the prefix is the count of these bytes:
  4 for the header, \<^verbatim>\<open>MasterKeyLength + 8 + 8\<close> for the fields, and the payload. For
  \<^verbatim>\<open>ReadEntry\<close> and \<^verbatim>\<open>Auth\<close> the client writes the packed header behind the prefix and
  nothing more, the bytes behind it are still what the allocation held, and the prefix
  is \<^verbatim>\<open>4 + MasterKeyLength + 16 + data->length()\<close> (as 32 bits).
\<close>

theorem C5_client_frameSize:
  "(data request = Some d \<and> reqOpCode request = AddEntry c
        \<and> chained d = [] \<and> MasterKeyLength c + 20 + IOBuf_length d < 2 ^ 31 \<longrightarrow>
       (\<exists>frame. ClientWrite c held request = Inr frame
          \<and> drop 4 frame
              = beBytes 4 (toInt \<lparr>version = protocolVersion request,
                    opCode = reqOpCode request, flags = reqFlags request\<rparr>)
                @ map held [8..<8 + MasterKeyLength c]
                @ beBytes 8 (ledgerId request) @ beBytes 8 (entryId request)
                @ bufData d
          \<and> frameSize_of frame = 4 + (MasterKeyLength c + 8 + 8) + length (bufData d)
          \<and> frameSize_of frame = bytes_after_prefix frame))
   \<and> (data request = Some d \<and> enumerators_distinct c
        \<and> (reqOpCode request = ReadEntry c \<or> reqOpCode request = Auth c) \<longrightarrow>
       (\<exists>frame. ClientWrite c held request = Inr frame
          \<and> take 4 (drop 4 frame)
              = beBytes 4 (toInt \<lparr>version = protocolVersion request,
                    opCode = reqOpCode request, flags = reqFlags request\<rparr>)
          \<and> drop 8 frame = map held [8..<8 + (MasterKeyLength c + 16)]
          \<and> frameSize_of frame = (4 + (MasterKeyLength c + 16 + IOBuf_length d)) mod 2 ^ 32))"
proof (intro conjI impI)
  assume a: "data request = Some d \<and> reqOpCode request = AddEntry c
        \<and> chained d = [] \<and> MasterKeyLength c + 20 + IOBuf_length d < 2 ^ 31"
  then have u: "unat (of_nat (4 + MasterKeyLength c + 16 + IOBuf_length d) :: 32 word)
      = 4 + MasterKeyLength c + 16 + IOBuf_length d"
    by (intro unat_of_nat32) simp
  from a have w: "ClientWrite c held request =
     Inr (beBytes 4 (of_nat (4 + MasterKeyLength c + 16 + IOBuf_length d) :: 32 word)
        @ beBytes 4 (toInt \<lparr>version = protocolVersion request, opCode = reqOpCode request,
             flags = reqFlags request\<rparr>)
        @ map held [8..<8 + MasterKeyLength c]
        @ beBytes 8 (ledgerId request) @ beBytes 8 (entryId request) @ chainBytes d)"
    by (simp add: ClientWrite_AddEntry)
  from a have cd: "chainBytes d = bufData d"
    by (simp add: chainBytes_def)
  show "\<exists>frame. ClientWrite c held request = Inr frame
          \<and> drop 4 frame
              = beBytes 4 (toInt \<lparr>version = protocolVersion request,
                    opCode = reqOpCode request, flags = reqFlags request\<rparr>)
                @ map held [8..<8 + MasterKeyLength c]
                @ beBytes 8 (ledgerId request) @ beBytes 8 (entryId request)
                @ bufData d
          \<and> frameSize_of frame = 4 + (MasterKeyLength c + 8 + 8) + length (bufData d)
          \<and> frameSize_of frame = bytes_after_prefix frame"
    unfolding w cd
    using u by (simp add: bytes_after_prefix_def IOBuf_length_def del: of_nat_add)
next
  assume a: "data request = Some d \<and> enumerators_distinct c
        \<and> (reqOpCode request = ReadEntry c \<or> reqOpCode request = Auth c)"
  then have n: "reqOpCode request \<noteq> AddEntry c"
    by (auto simp add: enumerators_distinct_def)
  have u: "unat (of_nat (4 + MasterKeyLength c + 16 + IOBuf_length d) :: 32 word)
      = (4 + (MasterKeyLength c + 16 + IOBuf_length d)) mod 2 ^ 32"
    by (simp only: unat_of_nat add.assoc) simp
  from a n u show "\<exists>frame. ClientWrite c held request = Inr frame
          \<and> take 4 (drop 4 frame)
              = beBytes 4 (toInt \<lparr>version = protocolVersion request,
                    opCode = reqOpCode request, flags = reqFlags request\<rparr>)
          \<and> drop 8 frame = map held [8..<8 + (MasterKeyLength c + 16)]
          \<and> frameSize_of frame = (4 + (MasterKeyLength c + 16 + IOBuf_length d)) mod 2 ^ 32"
    by (simp add: ClientWrite_stub add.commute del: of_nat_add)
qed

theorem C5_witness:
  "(\<exists>frame. ClientWrite bookkeeper zeros request3 = Inr frame
          \<and> frameSize_of frame = 4 + (20 + 8 + 8) + 2
          \<and> frameSize_of frame = bytes_after_prefix frame)
   \<and> (\<exists>frame. ClientWrite bookkeeper zeros request2 = Inr frame
          \<and> drop 8 frame = map zeros [8..<44]
          \<and> frameSize_of frame = 41)"
  using C5_client_frameSize [of request3 "IOBuf [104, 105] []" bookkeeper zeros]
    C5_client_frameSize [of request2 "IOBuf [104] []" bookkeeper zeros]
  by (auto simp add: request3_def request2_def bookkeeper_def IOBuf_length_def
        enumerators_distinct_def)

theorem C5_counterexample:
  "ClientWrite bookkeeper stale request2
     = Inr ([0, 0, 0, 41, 2, 2, 0, 0] @ replicate 36 238)
   \<and> frameSize_of ([0, 0, 0, 41, 2, 2, 0, 0] @ replicate 36 238) = 41
   \<and> ClientWrite bookkeeper stale request1 = Inr (take 8 frame1 @ replicate 20 238 @ drop 28 frame1)
   \<and> frameSize_of frame1 = 42 \<and> bytes_after_prefix frame1 = 43
   \<and> ServerWrite bookkeeper stale response2 = Inr frame3
   \<and> frameSize_of frame3 = 28 \<and> drop 28 frame3 = [238, 238, 238, 238]"
  by code_simp

text \<open>
  C10. With a null \<^verbatim>\<open>data\<close> the client-side encoder dereferences the null pointer,
  whatever the operation is; with a \<^verbatim>\<open>data\<close> that is not null it hands a frame on.
  For \<^verbatim>\<open>ReadEntry\<close> and \<^verbatim>\<open>Auth\<close> the prefix is
  \<^verbatim>\<open>4 + MasterKeyLength + 16 + data->length()\<close> (as 32 bits), while the frame ends
  after the \<^verbatim>\<open>MasterKeyLength + 16\<close> bytes behind the header, and those bytes are
  still what the allocation held: nothing was written to them.
\<close>

theorem C10_data_dereferenced_before_switch:
  "(data request = None \<longrightarrow> ClientWrite c held request = Inl NullDereference)
   \<and> (data request = Some d \<longrightarrow> (\<exists>frame. ClientWrite c held request = Inr frame))
   \<and> (data request = Some d \<and> enumerators_distinct c
        \<and> (reqOpCode request = ReadEntry c \<or> reqOpCode request = Auth c) \<longrightarrow>
       (\<exists>frame. ClientWrite c held request = Inr frame
          \<and> frameSize_of frame = (4 + (MasterKeyLength c + 16 + IOBuf_length d)) mod 2 ^ 32
          \<and> length frame = 8 + (MasterKeyLength c + 16)
          \<and> drop 8 frame = map held [8..<8 + (MasterKeyLength c + 16)]))"
proof (intro conjI impI)
  assume "data request = None"
  then show "ClientWrite c held request = Inl NullDereference"
    by (rule ClientWrite_null)
next
  assume "data request = Some d"
  then show "\<exists>frame. ClientWrite c held request = Inr frame"
    by (cases "reqOpCode request = AddEntry c")
       (simp_all add: ClientWrite_AddEntry ClientWrite_stub)
next
  assume a: "data request = Some d \<and> enumerators_distinct c
        \<and> (reqOpCode request = ReadEntry c \<or> reqOpCode request = Auth c)"
  then have n: "reqOpCode request \<noteq> AddEntry c"
    by (auto simp add: enumerators_distinct_def)
  have u: "unat (of_nat (4 + MasterKeyLength c + 16 + IOBuf_length d) :: 32 word)
      = (4 + (MasterKeyLength c + 16 + IOBuf_length d)) mod 2 ^ 32"
    by (simp only: unat_of_nat add.assoc) simp
  from a n u show "\<exists>frame. ClientWrite c held request = Inr frame
          \<and> frameSize_of frame = (4 + (MasterKeyLength c + 16 + IOBuf_length d)) mod 2 ^ 32
          \<and> length frame = 8 + (MasterKeyLength c + 16)
          \<and> drop 8 frame = map held [8..<8 + (MasterKeyLength c + 16)]"
    by (simp add: ClientWrite_stub add.commute del: of_nat_add)
qed

theorem C10_witness:
  "ClientWrite bookkeeper zeros request4 = Inl NullDereference
   \<and> (\<exists>frame. ClientWrite bookkeeper zeros request1 = Inr frame)
   \<and> (\<exists>frame. ClientWrite bookkeeper zeros request2 = Inr frame
          \<and> frameSize_of frame = 41
          \<and> length frame = 44
          \<and> drop 8 frame = map zeros [8..<44])"
  using C10_data_dereferenced_before_switch [of request4 bookkeeper zeros "IOBuf [104] []"]
    C10_data_dereferenced_before_switch [of request1 bookkeeper zeros "IOBuf [104, 105] [[33]]"]
    C10_data_dereferenced_before_switch [of request2 bookkeeper zeros "IOBuf [104] []"]
  by (simp add: request4_def request1_def request2_def bookkeeper_def IOBuf_length_def
        enumerators_distinct_def)

section \<open>The journal: what every step keeps\<close>

lemma drained_append [simp]: "drained (c @ d) = drained c @ drained d"
  by (induction c rule: drained.induct) simp_all

lemma taken_append [simp]: "taken (c @ d) = taken c @ taken d"
  by (induction c rule: taken.induct) simp_all

lemma drained_Reads [simp]: "drained (map (\<lambda>p. Read (Some p)) ps) = ps"
  by (induction ps) simp_all

lemma taken_Reads [simp]: "taken (map (\<lambda>p. Read (Some p)) ps) = map Some ps"
  by (induction ps) simp_all

lemma drained_SetValues [simp]: "drained (map SetValue ps) = []"
  by (induction ps) simp_all

lemma taken_SetValues [simp]: "taken (map SetValue ps) = []"
  by (induction ps) simp_all

lemma drained_full_cycle [simp]: "drained (full_cycle ps) = ps"
  by (simp add: full_cycle_def)

lemma drained_exit_cycle [simp]: "drained (exit_cycle ps) = ps"
  by (simp add: exit_cycle_def)

lemma taken_full_cycle [simp]: "taken (full_cycle ps) = map Some ps"
  by (simp add: full_cycle_def)

lemma taken_exit_cycle [simp]: "taken (exit_cycle ps) = map Some ps @ [None]"
  by (simp add: exit_cycle_def)

lemma full_cycle_Nil: "full_cycle [] = [ReadNothing]"
  by (simp add: full_cycle_def)

lemma full_cycle_batch:
  "ps \<noteq> [] \<Longrightarrow>
   map (\<lambda>p. Read (Some p)) ps @ ReadNothing # SyncWAL # map SetValue ps = full_cycle ps"
  by (simp add: full_cycle_def)

lemma journal_inv_constructed: "journal_inv (constructed f)"
  by (simp add: journal_inv_def constructed_def)

lemma journal_inv_put: "journal_inv s \<Longrightarrow> journal_inv (step (Put ok) s)"
  by (cases "journalThread s")
     (auto simp add: journal_inv_def put_def Let_def split: if_splits)

lemma journal_inv_destructor: "journal_inv s \<Longrightarrow> journal_inv (destructor s)"
  by (cases "journalThread s")
     (auto simp add: journal_inv_def destructor_def Let_def split: if_splits)

lemma journal_inv_runJournal: "journal_inv s \<Longrightarrow> journal_inv (runJournal s)"
proof (cases "journalThread s")
  case NotStarted
  then show "journal_inv s \<Longrightarrow> journal_inv (runJournal s)"
    by (simp add: runJournal_def)
next
  case AtAcquire
  then show "journal_inv s \<Longrightarrow> journal_inv (runJournal s)"
    by (auto simp add: runJournal_def journal_inv_def)
next
  case AtRead
  assume inv: "journal_inv s"
  then obtain cs where log: "journalLog s = map (\<lambda>p. Read (Some p)) (entriesToSync s) # cs"
    using AtRead by (auto simp add: journal_inv_def)
  show "journal_inv (runJournal s)"
  proof (cases "journalQueue s")
    case Nil
    then show ?thesis
      using inv AtRead log
      by (auto simp add: runJournal_def journal_inv_def full_cycle_Nil)
  next
    case (Cons x q)
    then show ?thesis
      using inv AtRead log
      by (cases x) (auto simp add: runJournal_def journal_inv_def exit_cycle_def)
  qed
next
  case AtSyncWAL
  then show "journal_inv s \<Longrightarrow> journal_inv (runJournal s)"
    by (auto simp add: runJournal_def journal_inv_def)
next
  case AtSetValue
  then show "journal_inv s \<Longrightarrow> journal_inv (runJournal s)"
    by (auto simp add: runJournal_def journal_inv_def full_cycle_batch)
next
  case Exited
  then show "journal_inv s \<Longrightarrow> journal_inv (runJournal s)"
    by (simp add: runJournal_def)
qed

lemma journal_inv_step: "journal_inv s \<Longrightarrow> journal_inv (step e s)"
  by (cases e) (simp_all add: journal_inv_put journal_inv_destructor journal_inv_runJournal del: step.simps(1))

lemma journal_inv_run: "journal_inv s \<Longrightarrow> journal_inv (run sched s)"
  unfolding run_def by (induction sched arbitrary: s) (simp_all add: journal_inv_step del: step.simps)

lemma reached_inv: "journal_inv (run sched (constructed f))"
  by (rule journal_inv_run [OF journal_inv_constructed])

lemma non_durable_step: "non_durable s \<Longrightarrow> non_durable (step e s)"
  by (cases e) (auto simp add: non_durable_def put_def runJournal_def destructor_def)

lemma non_durable_run: "non_durable s \<Longrightarrow> non_durable (run sched s)"
  unfolding run_def by (induction sched arbitrary: s) (simp_all add: non_durable_step del: step.simps)

lemma non_durable_constructed: "non_durable (constructed False)"
  by (simp add: non_durable_def constructed_def)

lemma not_in_Reads [simp]:
  "SyncWAL \<notin> set (map (\<lambda>p. Read (Some p)) ps)"
  "SetValue q \<notin> set (map (\<lambda>p. Read (Some p)) ps)"
  "Return \<notin> set (map (\<lambda>p. Read (Some p)) ps)"
  "ReadNothing \<notin> set (map (\<lambda>p. Read (Some p)) ps)"
  by auto

lemma count_SyncWAL_Reads [simp]: "count_list (map (\<lambda>p. Read (Some p)) ps) SyncWAL = 0"
  by (induction ps) simp_all

lemma count_SyncWAL_SetValues [simp]: "count_list (map SetValue ps) SyncWAL = 0"
  by (induction ps) simp_all

lemma count_list_append [simp]: "count_list (xs @ ys) a = count_list xs a + count_list ys a"
  by (induction xs) simp_all

lemma count_SyncWAL_full_cycle: "count_list (full_cycle ps) SyncWAL = (if ps = [] then 0 else 1)"
  by (simp add: full_cycle_def)

lemma takeWhile_Reads [simp]:
  "takeWhile (\<lambda>a. a \<noteq> SyncWAL) (map (\<lambda>p. Read (Some p)) ps @ c)
     = map (\<lambda>p. Read (Some p)) ps @ takeWhile (\<lambda>a. a \<noteq> SyncWAL) c"
  by (induction ps) simp_all

lemma dropWhile_Reads [simp]:
  "dropWhile (\<lambda>a. a \<noteq> SyncWAL) (map (\<lambda>p. Read (Some p)) ps @ c)
     = dropWhile (\<lambda>a. a \<noteq> SyncWAL) c"
  by (induction ps) simp_all

lemma takeWhile_full_cycle:
  "takeWhile (\<lambda>a. a \<noteq> SyncWAL) (full_cycle ps) = map (\<lambda>p. Read (Some p)) ps @ [ReadNothing]"
  by (simp add: full_cycle_def)

lemma dropWhile_full_cycle:
  "dropWhile (\<lambda>a. a \<noteq> SyncWAL) (full_cycle ps) = (if ps = [] then [] else SyncWAL # map SetValue ps)"
  by (simp add: full_cycle_def)

lemma Return_full_cycle [simp]: "Return \<notin> set (full_cycle ps)"
  by (auto simp add: full_cycle_def)

lemma Return_exit_cycle [simp]: "Return \<in> set (exit_cycle ps)"
  by (simp add: exit_cycle_def)

lemma SetValue_full_cycle: "SetValue p \<in> set (full_cycle ps) \<longleftrightarrow> p \<in> set ps"
  by (auto simp add: full_cycle_def)

lemma SyncWAL_full_cycle: "SyncWAL \<in> set (full_cycle ps) \<longleftrightarrow> ps \<noteq> []"
  by (auto simp add: full_cycle_def)

lemma finished_full:
  assumes "journal_inv s" and "c \<in> set (finished s)" and "Return \<notin> set c"
  shows "c = full_cycle (drained c)"
proof (cases "journalThread s = Exited")
  case True
  then obtain ps cs where log: "journalLog s = exit_cycle ps # cs"
    using assms(1) by (auto simp add: journal_inv_def)
  with True assms(2) assms(3) have "c \<in> set cs"
    by (auto simp add: finished_def)
  with log assms(1) show ?thesis
    by (simp add: journal_inv_def)
next
  case False
  with assms(1) assms(2) show ?thesis
    by (cases "journalThread s") (auto simp add: journal_inv_def finished_def)
qed

lemma handed_step: "handed s \<Longrightarrow> handed (step e s)"
  by (cases e) (auto simp add: handed_def put_def runJournal_def destructor_def Let_def
      split: location.splits list.splits option.splits)

lemma handed_run: "handed s \<Longrightarrow> handed (run sched s)"
  unfolding run_def by (induction sched arbitrary: s) (simp_all add: handed_step del: step.simps)

lemma handed_constructed: "handed (constructed f)"
  by (simp add: handed_def constructed_def)

lemma taken_full_cycles:
  "\<forall>c \<in> set cs. c = full_cycle (drained c) \<Longrightarrow>
   concat (map taken cs) = map Some (concat (map drained cs))"
proof (induction cs)
  case Nil
  show ?case by simp
next
  case (Cons c cs)
  then have "c = full_cycle (drained c)" by simp
  then have "taken c = map Some (drained c)"
    by (metis taken_full_cycle)
  with Cons show ?case by simp
qed

lemma takeWhile_Somes: "takeWhile (\<lambda>x. x \<noteq> None) (map Some xs @ None # q) = map Some xs"
  by (induction xs) simp_all

lemma run_shutdown_with_one_pending:
  "run shutdown_with_one_pending (constructed True) =
     \<lparr>fsyncWal = True, journalQueue = [], journalThread = Exited,
      entriesToSync = [], made = 1, written = [Some 0, None],
      futures = [FutureOf 0], destroyed = [0],
      journalLog = [[Read (Some 0), Read None, Return]]\<rparr>"
  by code_simp

lemma run_sentinel_at_head:
  "run sentinel_at_head (constructed True) =
     \<lparr>fsyncWal = True, journalQueue = [None], journalThread = AtRead,
      entriesToSync = [0], made = 1, written = [Some 0, None],
      futures = [FutureOf 0], destroyed = [],
      journalLog = [[Read (Some 0)]]\<rparr>"
  by code_simp

lemma run_two_synced_one_pending:
  "run two_synced_one_pending (constructed True) =
     \<lparr>fsyncWal = True, journalQueue = [], journalThread = Exited,
      entriesToSync = [], made = 3, written = [Some 0, Some 1, Some 2, None],
      futures = [FutureOf 0, FutureOf 1, FutureOf 2], destroyed = [2],
      journalLog = [[Read (Some 2), Read None, Return],
        [Read (Some 0), Read (Some 1), ReadNothing, SyncWAL, SetValue 0, SetValue 1]]\<rparr>"
  by code_simp

lemma SetValue_in_full_cycle_only:
  assumes "journal_inv s" and "c \<in> set (journalLog s)" and "SetValue p \<in> set c"
  shows "c = full_cycle (drained c)"
proof (cases "c \<in> set (tl (journalLog s))")
  case True
  with assms(1) show ?thesis by (simp add: journal_inv_def)
next
  case False
  with assms(2) obtain cs where log: "journalLog s = c # cs"
    by (cases "journalLog s") auto
  with assms(1) assms(3) show ?thesis
    by (cases "journalThread s") (auto simp add: journal_inv_def exit_cycle_def)
qed

lemma Read_None_full_cycle [simp]: "Read None \<notin> set (full_cycle ps)"
  by (auto simp add: full_cycle_def)

lemma sentinel_pass_is_exit_cycle:
  assumes "journal_inv s" and "c \<in> set (journalLog s)" and "Read None \<in> set c"
  shows "\<exists>ps. c = exit_cycle ps"
proof (cases "c \<in> set (tl (journalLog s))")
  case True
  with assms(1) have "c = full_cycle (drained c)" by (simp add: journal_inv_def)
  with assms(3) show ?thesis by (metis Read_None_full_cycle)
next
  case False
  with assms(2) obtain cs where log: "journalLog s = c # cs"
    by (cases "journalLog s") auto
  show ?thesis
  proof (cases "journalThread s")
    case AtAcquire
    with assms(1) log have "c = full_cycle (drained c)" by (simp add: journal_inv_def)
    with assms(3) show ?thesis by (metis Read_None_full_cycle)
  next
    case Exited
    with assms(1) log show ?thesis by (auto simp add: journal_inv_def)
  next
    case NotStarted
    with assms(1) log show ?thesis by (simp add: journal_inv_def)
  next
    case AtRead
    with assms(1) assms(3) log show ?thesis by (auto simp add: journal_inv_def)
  next
    case AtSyncWAL
    with assms(1) assms(3) log show ?thesis by (auto simp add: journal_inv_def)
  next
    case AtSetValue
    with assms(1) assms(3) log show ?thesis by (auto simp add: journal_inv_def)
  qed
qed

lemma exit_cycle_quiet: "SyncWAL \<notin> set (exit_cycle ps) \<and> SetValue p \<notin> set (exit_cycle ps)"
  by (auto simp add: exit_cycle_def)

section \<open>The journal: the claims\<close>

text \<open>
  C9. With \<^verbatim>\<open>fsyncWal\<close> false, after any schedule: a \<^verbatim>\<open>put\<close> that the database accepts
  returns the future made with the value and changes nothing, nothing has been written
  to the journal queue and the queue is empty, the journal thread is not started, the
  journal has done nothing (no \<^verbatim>\<open>SyncWAL\<close>), and no future returned so far waits for a
  promise.
\<close>

theorem C9_non_durable_mode:
  "fst (put True (run sched (constructed False))) = MadeValue
   \<and> snd (put True (run sched (constructed False))) = run sched (constructed False)
   \<and> written (run sched (constructed False)) = []
   \<and> journalQueue (run sched (constructed False)) = []
   \<and> journalThread (run sched (constructed False)) = NotStarted
   \<and> journalLog (run sched (constructed False)) = []
   \<and> (\<forall>p. FutureOf p \<notin> set (futures (run sched (constructed False))))"
proof -
  have "non_durable (run sched (constructed False))"
    by (rule non_durable_run [OF non_durable_constructed])
  then show ?thesis
    by (auto simp add: non_durable_def put_def)
qed

theorem C9_witness:
  "fst (put True (run puts_without_fsync (constructed False))) = MadeValue
   \<and> futures (run puts_without_fsync (constructed False)) = [MadeValue, MadeException, MadeValue]
   \<and> journalThread (run puts_without_fsync (constructed False)) = NotStarted
   \<and> journalLog (run puts_without_fsync (constructed False)) = []
   \<and> written (run puts_without_fsync (constructed False)) = []
   \<and> Storage False True = Some (constructed False)"
proof -
  have "futures (run puts_without_fsync (constructed False))
      = [MadeValue, MadeException, MadeValue]"
    by code_simp
  then show ?thesis
    using C9_non_durable_mode [of puts_without_fsync]
    by (simp add: Storage_def)
qed

text \<open>
  C6. After any schedule: when the journal thread is about to read and the null promise
  is at the head of the queue, its step takes it, logs the read and the return and
  nothing else behind the reads of this pass, leaves the promises of \<open>entriesToSync\<close>
  to be destroyed, and has returned, for good. And whenever the thread has returned, its
  last pass is reads of promises, the read of the null promise and the return: it holds
  no \<^verbatim>\<open>SyncWAL\<close> and no \<^verbatim>\<open>setValue\<close>.
\<close>

theorem C6_sentinel_exits_at_once:
  "(journalThread (run sched (constructed f)) = AtRead
      \<and> journalQueue (run sched (constructed f)) = None # q \<longrightarrow>
      journalThread (runJournal (run sched (constructed f))) = Exited
      \<and> journalQueue (runJournal (run sched (constructed f))) = q
      \<and> journalLog (runJournal (run sched (constructed f)))
          = (map (\<lambda>p. Read (Some p)) (entriesToSync (run sched (constructed f)))
               @ [Read None, Return])
            # tl (journalLog (run sched (constructed f)))
      \<and> destroyed (runJournal (run sched (constructed f)))
          = destroyed (run sched (constructed f)) @ entriesToSync (run sched (constructed f))
      \<and> runJournal (runJournal (run sched (constructed f)))
          = runJournal (run sched (constructed f)))
   \<and> (journalThread (run sched (constructed f)) = Exited \<longrightarrow>
       (\<exists>ps cs. journalLog (run sched (constructed f)) = exit_cycle ps # cs
          \<and> SyncWAL \<notin> set (exit_cycle ps)
          \<and> (\<forall>p. SetValue p \<notin> set (exit_cycle ps))
          \<and> set ps \<subseteq> set (destroyed (run sched (constructed f)))))"
proof -
  let ?s = "run sched (constructed f)"
  have inv: "journal_inv ?s" by (rule reached_inv)
  have a: "journalThread (runJournal ?s) = Exited
      \<and> journalQueue (runJournal ?s) = q
      \<and> journalLog (runJournal ?s)
          = (map (\<lambda>p. Read (Some p)) (entriesToSync ?s) @ [Read None, Return]) # tl (journalLog ?s)
      \<and> destroyed (runJournal ?s) = destroyed ?s @ entriesToSync ?s
      \<and> runJournal (runJournal ?s) = runJournal ?s"
    if "journalThread ?s = AtRead \<and> journalQueue ?s = None # q"
    using that inv by (auto simp add: runJournal_def journal_inv_def)
  have b: "\<exists>ps cs. journalLog ?s = exit_cycle ps # cs
          \<and> SyncWAL \<notin> set (exit_cycle ps)
          \<and> (\<forall>p. SetValue p \<notin> set (exit_cycle ps))
          \<and> set ps \<subseteq> set (destroyed ?s)"
    if "journalThread ?s = Exited"
    using that inv by (auto simp add: journal_inv_def exit_cycle_def)
  show ?thesis using a b by blast
qed

theorem C6_witness:
  "journalThread (run sentinel_at_head (constructed True)) = AtRead
   \<and> journalQueue (run sentinel_at_head (constructed True)) = [None]
   \<and> entriesToSync (run sentinel_at_head (constructed True)) = [0]
   \<and> journalThread (runJournal (run sentinel_at_head (constructed True))) = Exited
   \<and> journalLog (runJournal (run sentinel_at_head (constructed True)))
       = [[Read (Some 0), Read None, Return]]
   \<and> destroyed (runJournal (run sentinel_at_head (constructed True))) = [0]
   \<and> journalThread (run shutdown_with_one_pending (constructed True)) = Exited
   \<and> journalLog (run shutdown_with_one_pending (constructed True)) = [exit_cycle [0]]"
  using C6_sentinel_exits_at_once [of sentinel_at_head True "[]"]
    C6_sentinel_exits_at_once [of shutdown_with_one_pending True "[]"]
  by (simp add: run_sentinel_at_head run_shutdown_with_one_pending exit_cycle_def)






end
